theory Spec2Isabelle
  imports Complex_Main "HOL-Library.Word"
begin

section \<open>Phone one-time-code login: \<open>src/lib/phone-auth.ts\<close>\<close>

subsection \<open>Strings, numbers and errors of the host language\<close>

text \<open>
  A JavaScript string is a sequence of UTF-16 code units. String literals of the source
  are ASCII and are written through \<open>utf16\<close>.
\<close>

type_synonym jsstring = "16 word list"

definition utf16 :: "string \<Rightarrow> jsstring" where
  "utf16 s = map (\<lambda>c. of_nat (of_char c)) s"

text \<open>The result of \<open>Number(...)\<close>: a double is NaN, an infinity or a finite rational.\<close>

datatype jsnum = NaN | PosInfinity | NegInfinity | Finite real

text \<open>\<open>new HttpError(status, message)\<close>.\<close>

datatype HttpError = HttpError int jsstring

text \<open>\<open>String(n)\<close> for an integer \<open>n\<close>: its decimal digits, with a minus sign below zero.\<close>

definition digitChar :: "nat \<Rightarrow> 16 word" where
  "digitChar d = of_nat (48 + d)"

fun decimal :: "nat \<Rightarrow> jsstring" where
  "decimal n = (if n < 10 then [digitChar n] else decimal (n div 10) @ [digitChar (n mod 10)])"

declare decimal.simps [simp del]

definition String_of :: "int \<Rightarrow> jsstring" where
  "String_of n = (if n < 0 then 45 # decimal (nat (- n)) else decimal (nat n))"

text \<open>\<open>s.padStart(n, c)\<close> with a one-unit pad string.\<close>

definition padStart :: "nat \<Rightarrow> 16 word \<Rightarrow> jsstring \<Rightarrow> jsstring" where
  "padStart n c s = replicate (n - length s) c @ s"

text \<open>
  The class \<open>\s\<close> of a JavaScript regular expression (white space and line terminators)
  and the class \<open>\d\<close> (the ASCII digits).
\<close>

definition isWhiteSpace :: "16 word \<Rightarrow> bool" where
  "isWhiteSpace c \<longleftrightarrow>
     c \<in> {0x09, 0x0A, 0x0B, 0x0C, 0x0D, 0x20, 0xA0, 0x1680, 0x2028, 0x2029, 0x202F, 0x205F,
          0x3000, 0xFEFF}
     \<or> (0x2000 \<le> c \<and> c \<le> 0x200A)"

definition isDigit :: "16 word \<Rightarrow> bool" where
  "isDigit c \<longleftrightarrow> 0x30 \<le> c \<and> c \<le> 0x39"

subsection \<open>Constants\<close>

definition OTP_CODE_LENGTH :: nat where "OTP_CODE_LENGTH = 6"
definition MAX_VERIFY_ATTEMPTS :: int where "MAX_VERIFY_ATTEMPTS = 5"
definition MAX_REQUESTS_PER_WINDOW :: nat where "MAX_REQUESTS_PER_WINDOW = 5"
definition REQUEST_WINDOW_MINUTES :: int where "REQUEST_WINDOW_MINUTES = 15"
definition RESEND_COOLDOWN_SECONDS :: int where "RESEND_COOLDOWN_SECONDS = 60"

subsection \<open>\<open>normalizeOtpCode\<close>\<close>

text \<open>
  \<open>input.replace(/\s+/g, '')\<close> deletes every white-space unit. The pattern
  \<open>^\d{n}$\<close> (no flags) matches when the whole string is \<open>n\<close> digits: \<open>matchDigits\<close>
  consumes one digit per step and accepts at the end of the input.
\<close>

definition removeWhiteSpace :: "jsstring \<Rightarrow> jsstring" where
  "removeWhiteSpace input = filter (\<lambda>c. \<not> isWhiteSpace c) input"

fun matchDigits :: "nat \<Rightarrow> jsstring \<Rightarrow> bool" where
  "matchDigits 0 s = (s = [])"
| "matchDigits (Suc n) [] = False"
| "matchDigits (Suc n) (c # s) = (isDigit c \<and> matchDigits n s)"

definition normalizeOtpCode :: "jsstring \<Rightarrow> HttpError + jsstring" where
  "normalizeOtpCode input =
     (let compact = removeWhiteSpace input
      in if \<not> matchDigits OTP_CODE_LENGTH compact
         then Inl (HttpError 400 (utf16 ''Codul trebuie sa aiba 6 cifre''))
         else Inr compact)"

subsection \<open>Environment and the crypto primitives\<close>

text \<open>
  \<open>process.env\<close> holds a string or nothing for each variable. The two library
  functions the module calls, \<open>Number\<close> on a string and HMAC-SHA256 with a hex digest
  (\<open>createHmac('sha256', key).update(msg).digest('hex')\<close>), are parameters of the model.
\<close>

record process_env =
  PHONE_OTP_TTL_MINUTES :: "jsstring option"
  PHONE_OTP_SECRET :: "jsstring option"
  NEXTAUTH_SECRET :: "jsstring option"

record host =
  env :: process_env
  Number :: "jsstring \<Rightarrow> jsnum"
  hmacSha256Hex :: "jsstring \<Rightarrow> jsstring \<Rightarrow> jsstring"

definition getOtpTtlMinutes :: "host \<Rightarrow> int" where
  "getOtpTtlMinutes h =
     (let parsed = (case PHONE_OTP_TTL_MINUTES (env h) of
                      None \<Rightarrow> Finite 5
                    | Some s \<Rightarrow> Number h s)
      in case parsed of
           Finite x \<Rightarrow> max 1 (min 15 \<lfloor>x\<rfloor>)
         | _ \<Rightarrow> 5)"

text \<open>
  \<open>a || b\<close> on an environment variable \<open>a\<close>: an unset variable and the empty string are
  both falsy and give \<open>b\<close>.
\<close>

definition orElse :: "jsstring option \<Rightarrow> jsstring \<Rightarrow> jsstring" where
  "orElse a b = (case a of None \<Rightarrow> b | Some s \<Rightarrow> if s = [] then b else s)"

definition getOtpSecret :: "host \<Rightarrow> jsstring" where
  "getOtpSecret h =
     orElse (PHONE_OTP_SECRET (env h))
       (orElse (NEXTAUTH_SECRET (env h)) (utf16 ''phone-otp-fallback-secret-change-me''))"

definition hashOtpCode :: "host \<Rightarrow> jsstring \<Rightarrow> jsstring \<Rightarrow> jsstring" where
  "hashOtpCode h phoneNumber code =
     hmacSha256Hex h (getOtpSecret h) (phoneNumber @ utf16 '':'' @ code)"

text \<open>
  \<open>Buffer.from(s, 'hex')\<close> decodes two hex digits per byte and stops at the first pair
  that is not two hex digits; a trailing single digit is dropped. The decoder looks only
  at the low byte of each code unit.
\<close>

definition hexVal :: "16 word \<Rightarrow> nat option" where
  "hexVal c =
     (let b = c mod 0x100
      in if 0x30 \<le> b \<and> b \<le> 0x39 then Some (unat b - 48)
         else if 0x41 \<le> b \<and> b \<le> 0x46 then Some (unat b - 55)
         else if 0x61 \<le> b \<and> b \<le> 0x66 then Some (unat b - 87)
         else None)"

fun bufferFromHex :: "jsstring \<Rightarrow> nat list" where
  "bufferFromHex (a # b # rest) =
     (case (hexVal a, hexVal b) of
        (Some x, Some y) \<Rightarrow> (16 * x + y) # bufferFromHex rest
      | _ \<Rightarrow> [])"
| "bufferFromHex _ = []"

definition secureEqualHex :: "jsstring \<Rightarrow> jsstring \<Rightarrow> bool" where
  "secureEqualHex left right =
     (let leftBuffer = bufferFromHex left; rightBuffer = bufferFromHex right
      in if length leftBuffer \<noteq> length rightBuffer then False
         else leftBuffer = rightBuffer)"

subsection \<open>The table \<open>PhoneLoginCode\<close>\<close>

text \<open>
  One row of the table (columns as in the migration). Times are milliseconds since the
  epoch, as \<open>Date.getTime()\<close> gives them. The table is the list of its rows in insertion
  order, together with the source of fresh primary keys.
\<close>

record PhoneLoginCode =
  id' :: nat
  phoneNumber :: jsstring
  codeHash :: jsstring
  expiresAt :: int
  attempts :: int
  consumedAt :: "int option"
  requestedByIp :: "jsstring option"
  createdAt :: int

record store =
  rows :: "PhoneLoginCode list"
  nextId :: nat

definition emptyStore :: store where
  "emptyStore = \<lparr>rows = [], nextId = 0\<rparr>"

text \<open>\<open>deleteMany\<close> and \<open>count\<close> with a \<open>where\<close> condition.\<close>

definition deleteMany :: "(PhoneLoginCode \<Rightarrow> bool) \<Rightarrow> store \<Rightarrow> store" where
  "deleteMany P st = st\<lparr>rows := filter (\<lambda>r. \<not> P r) (rows st)\<rparr>"

definition count :: "(PhoneLoginCode \<Rightarrow> bool) \<Rightarrow> store \<Rightarrow> nat" where
  "count P st = length (filter P (rows st))"

text \<open>
  \<open>create\<close> fills the defaults of the columns the caller does not give: a fresh key,
  no attempts, not consumed, and the creation time, for which the database clock is taken
  to agree with the caller's \<open>now\<close>.
\<close>

definition create ::
  "int \<Rightarrow> jsstring \<Rightarrow> jsstring \<Rightarrow> int \<Rightarrow> jsstring option \<Rightarrow> store \<Rightarrow> store" where
  "create now phone hash expires ip st =
     \<lparr>rows = rows st @
        [\<lparr>id' = nextId st, phoneNumber = phone, codeHash = hash, expiresAt = expires,
          attempts = 0, consumedAt = None, requestedByIp = ip, createdAt = now\<rparr>],
      nextId = Suc (nextId st)\<rparr>"

text \<open>
  \<open>update\<close> changes the rows with the given key. The callers pass the key of a row they
  have just read from the same table, so the case of a missing key does not arise.
\<close>

definition update :: "nat \<Rightarrow> (PhoneLoginCode \<Rightarrow> PhoneLoginCode) \<Rightarrow> store \<Rightarrow> store" where
  "update i f st = st\<lparr>rows := map (\<lambda>r. if id' r = i then f r else r) (rows st)\<rparr>"

text \<open>
  \<open>findFirst\<close> with \<open>orderBy: { createdAt: 'desc' }\<close>: the matching row created last.
  Among rows created at the same instant the database is free to choose; the model takes
  the one inserted first. The general facts below use only that the chosen row matches
  and that no matching row was created later.
\<close>

fun newest :: "PhoneLoginCode list \<Rightarrow> PhoneLoginCode option" where
  "newest [] = None"
| "newest (r # rs) =
     (case newest rs of
        None \<Rightarrow> Some r
      | Some m \<Rightarrow> if createdAt r < createdAt m then Some m else Some r)"

definition findFirstDesc :: "(PhoneLoginCode \<Rightarrow> bool) \<Rightarrow> store \<Rightarrow> PhoneLoginCode option" where
  "findFirstDesc P st = newest (filter P (rows st))"

subsection \<open>\<open>issuePhoneLoginCode\<close>\<close>

text \<open>
  The current time \<open>now\<close> and the draw \<open>rnd\<close> of \<open>randomInt(0, 10 ** 6)\<close> are inputs.
  The result pairs what the call returns or throws with the table it leaves behind: the
  purge has happened also when the call throws.
\<close>

definition purgeable :: "int \<Rightarrow> PhoneLoginCode \<Rightarrow> bool" where
  "purgeable now r \<longleftrightarrow>
     expiresAt r < now \<or> consumedAt r \<noteq> None \<or> attempts r \<ge> MAX_VERIFY_ATTEMPTS"

definition rateLimitError :: HttpError where
  "rateLimitError =
     HttpError 429 (utf16 ''Prea multe coduri solicitate. Incearca din nou in cateva minute.'')"

definition cooldownError :: "int \<Rightarrow> HttpError" where
  "cooldownError secondsSinceLast =
     HttpError 429 (utf16 ''Asteapta '' @ String_of (RESEND_COOLDOWN_SECONDS - secondsSinceLast)
                    @ utf16 ''s inainte de o noua solicitare'')"

definition issuePhoneLoginCode ::
  "host \<Rightarrow> nat \<Rightarrow> int \<Rightarrow> store \<Rightarrow> jsstring \<Rightarrow> jsstring option
     \<Rightarrow> (HttpError + jsstring \<times> int) \<times> store" where
  "issuePhoneLoginCode h rnd now st phone requestedBy =
     (let windowStart = now - REQUEST_WINDOW_MINUTES * 60 * 1000;
          st1 = deleteMany (purgeable now) st;
          recentCount = count (\<lambda>r. phoneNumber r = phone \<and> createdAt r \<ge> windowStart) st1
      in if recentCount \<ge> MAX_REQUESTS_PER_WINDOW then (Inl rateLimitError, st1)
         else
           let latest = findFirstDesc (\<lambda>r. phoneNumber r = phone) st1;
               tooSoon = (case latest of
                            None \<Rightarrow> None
                          | Some l \<Rightarrow>
                              let secondsSinceLast = (now - createdAt l) div 1000
                              in if secondsSinceLast < RESEND_COOLDOWN_SECONDS
                                 then Some (cooldownError secondsSinceLast) else None)
           in case tooSoon of
                Some e \<Rightarrow> (Inl e, st1)
              | None \<Rightarrow>
                  let code = padStart OTP_CODE_LENGTH 48 (String_of (int rnd));
                      expires = now + getOtpTtlMinutes h * 60 * 1000
                  in (Inr (code, expires),
                      create now phone (hashOtpCode h phone code) expires requestedBy st1))"

subsection \<open>\<open>verifyPhoneLoginCode\<close>\<close>

text \<open>
  The row that verification checks: the newest row of the phone number that is neither
  consumed nor expired.
\<close>

definition activeCode :: "int \<Rightarrow> store \<Rightarrow> jsstring \<Rightarrow> PhoneLoginCode option" where
  "activeCode now st phone =
     findFirstDesc (\<lambda>r. phoneNumber r = phone \<and> consumedAt r = None \<and> expiresAt r > now) st"

definition verifyPhoneLoginCode ::
  "host \<Rightarrow> int \<Rightarrow> store \<Rightarrow> jsstring \<Rightarrow> jsstring \<Rightarrow> (HttpError + bool) \<times> store" where
  "verifyPhoneLoginCode h now st phone code =
     (case normalizeOtpCode code of
        Inl e \<Rightarrow> (Inl e, st)
      | Inr normalizedCode \<Rightarrow>
          (case activeCode now st phone of
             None \<Rightarrow> (Inr False, st)
           | Some active \<Rightarrow>
               if attempts active \<ge> MAX_VERIFY_ATTEMPTS then (Inr False, st)
               else
                 let expectedHash = hashOtpCode h phone normalizedCode;
                     valid = secureEqualHex (codeHash active) expectedHash
                 in if \<not> valid
                    then (Inr False,
                          update (id' active) (\<lambda>r. r\<lparr>attempts := attempts r + 1\<rparr>) st)
                    else (Inr True,
                          update (id' active)
                            (\<lambda>r. r\<lparr>consumedAt := Some now, attempts := attempts r + 1\<rparr>) st)))"

subsection \<open>Sequences of calls\<close>

text \<open>
  A call of either function with its inputs and the time at which it runs; \<open>run\<close>
  performs a list of calls one after the other and keeps the table.
\<close>

datatype call =
  Issue int jsstring "jsstring option" nat
| Verify int jsstring jsstring

fun step :: "host \<Rightarrow> store \<Rightarrow> call \<Rightarrow> store" where
  "step h st (Issue now phone ip rnd) = snd (issuePhoneLoginCode h rnd now st phone ip)"
| "step h st (Verify now phone code) = snd (verifyPhoneLoginCode h now st phone code)"

definition run :: "host \<Rightarrow> call list \<Rightarrow> store \<Rightarrow> store" where
  "run h calls st = foldl (step h) st calls"

text \<open>
  A stand-in for the keyed hash in the concrete runs below: the hex encoding of the
  message, which \<open>Buffer.from(..., 'hex')\<close> decodes back.
\<close>

definition hexDigit :: "nat \<Rightarrow> 16 word" where
  "hexDigit d = (if d < 10 then of_nat (48 + d) else of_nat (87 + d))"

definition hexOfMessage :: "jsstring \<Rightarrow> jsstring \<Rightarrow> jsstring" where
  "hexOfMessage key msg =
     concat (map (\<lambda>c. [hexDigit (unat c div 16 mod 16), hexDigit (unat c mod 16)]) msg)"

definition testHost :: host where
  "testHost =
     \<lparr>env = \<lparr>PHONE_OTP_TTL_MINUTES = None, PHONE_OTP_SECRET = None, NEXTAUTH_SECRET = None\<rparr>,
      Number = (\<lambda>s. NaN),
      hmacSha256Hex = hexOfMessage\<rparr>"

text \<open>
  The same host with \<open>PHONE_OTP_TTL_MINUTES\<close> set to the empty string. Its \<open>Number\<close>
  agrees with JavaScript's on blank strings, where \<open>Number('')\<close> is 0; the run below
  passes it nothing else.
\<close>

definition blankTtlHost :: host where
  "blankTtlHost =
     \<lparr>env = \<lparr>PHONE_OTP_TTL_MINUTES = Some [], PHONE_OTP_SECRET = None, NEXTAUTH_SECRET = None\<rparr>,
      Number = (\<lambda>s. if removeWhiteSpace s = [] then Finite 0 else NaN),
      hmacSha256Hex = hexOfMessage\<rparr>"

subsection \<open>Well-formed tables and test data\<close>

text \<open>
  The primary key: no two rows share an \<open>id\<close>, and every key in use was handed out
  before the next fresh one.
\<close>

definition storeOk :: "store \<Rightarrow> bool" where
  "storeOk st \<longleftrightarrow>
     distinct (map id' (rows st)) \<and> list_all (\<lambda>r. id' r < nextId st) (rows st)"

text \<open>Every attempt counter lies between 0 and the maximum.\<close>

definition attemptsInRange :: "store \<Rightarrow> bool" where
  "attemptsInRange st \<longleftrightarrow>
     list_all (\<lambda>r. 0 \<le> attempts r \<and> attempts r \<le> MAX_VERIFY_ATTEMPTS) (rows st)"

definition phone0 :: jsstring where
  "phone0 = utf16 ''+40711111111''"

text \<open>
  A series of failed attempts against one row: each call finds the row with key \<open>i\<close> as
  the active one and returns false. The result is the table after the last of them.
\<close>

fun failedAgainst ::
  "host \<Rightarrow> nat \<Rightarrow> jsstring \<Rightarrow> store \<Rightarrow> (int \<times> jsstring) list \<Rightarrow> store option" where
  "failedAgainst h i phone st [] = Some st"
| "failedAgainst h i phone st ((now, code) # rest) =
     (case activeCode now st phone of
        None \<Rightarrow> None
      | Some a \<Rightarrow>
          if id' a \<noteq> i then None
          else (case verifyPhoneLoginCode h now st phone code of
                  (Inr False, st') \<Rightarrow> failedAgainst h i phone st' rest
                | _ \<Rightarrow> None))"

text \<open>
  Tables used in the concrete runs: the table after one code (000123) was issued at time
  0 under \<open>testHost\<close>, and the same table after five wrong codes were tried.
\<close>

definition issuedRow :: PhoneLoginCode where
  "issuedRow =
     \<lparr>id' = 0, phoneNumber = phone0,
      codeHash = hexOfMessage [] (phone0 @ utf16 '':000123''),
      expiresAt = 300000, attempts = 0, consumedAt = None, requestedByIp = None,
      createdAt = 0\<rparr>"

definition issuedStore :: store where
  "issuedStore = \<lparr>rows = [issuedRow], nextId = 1\<rparr>"

definition exhaustedStore :: store where
  "exhaustedStore = \<lparr>rows = [issuedRow\<lparr>attempts := 5\<rparr>], nextId = 1\<rparr>"

definition fiveWrong :: "(int \<times> jsstring) list" where
  "fiveWrong =
     [(1000, utf16 ''111111''), (2000, utf16 ''222222''), (3000, utf16 ''333333''),
      (4000, utf16 ''444444''), (5000, utf16 ''555555'')]"

text \<open>
  Two live codes for one phone number: 000123 issued at time 0 and a second code issued
  a minute later. In \<open>twoCodesStore\<close> the second code is 000456, in
  \<open>twoCodesExhausted\<close> five wrong codes have been tried since, and in \<open>sameCodeStore\<close>
  the second draw was 000123 again.
\<close>

definition secondRow :: PhoneLoginCode where
  "secondRow =
     \<lparr>id' = 1, phoneNumber = phone0,
      codeHash = hexOfMessage [] (phone0 @ utf16 '':000456''),
      expiresAt = 360000, attempts = 0, consumedAt = None, requestedByIp = None,
      createdAt = 60000\<rparr>"

definition twoCodesStore :: store where
  "twoCodesStore = \<lparr>rows = [issuedRow, secondRow], nextId = 2\<rparr>"

definition twoCodesExhausted :: store where
  "twoCodesExhausted = \<lparr>rows = [issuedRow, secondRow\<lparr>attempts := 5\<rparr>], nextId = 2\<rparr>"

definition sameCodeStore :: store where
  "sameCodeStore =
     \<lparr>rows = [issuedRow, secondRow\<lparr>codeHash := codeHash issuedRow\<rparr>], nextId = 2\<rparr>"

text \<open>The tables after the newest code of \<open>issuedStore\<close> and \<open>sameCodeStore\<close> was verified.\<close>

definition consumedStore :: store where
  "consumedStore =
     \<lparr>rows = [issuedRow\<lparr>consumedAt := Some 1000, attempts := 1\<rparr>], nextId = 1\<rparr>"


text \<open>Five issuances for one phone number, one minute apart.\<close>

definition fiveIssues :: "call list" where
  "fiveIssues =
     [Issue 0 phone0 None 1, Issue 60000 phone0 None 2, Issue 120000 phone0 None 3,
      Issue 180000 phone0 None 4, Issue 240000 phone0 None 5]"

section \<open>Auxiliary facts\<close>

lemma matchDigits_iff: "matchDigits n s \<longleftrightarrow> length s = n \<and> (\<forall>c\<in>set s. isDigit c)"
proof (induction n s rule: matchDigits.induct)
  case (1 s)
  then show ?case by auto
next
  case (2 n)
  then show ?case by simp
next
  case (3 n c s)
  then show ?case by auto
qed

lemma unat_digitChar: "d < 10 \<Longrightarrow> unat (digitChar d) = 48 + d"
  unfolding digitChar_def by (simp only: unat_of_nat) simp

lemma isDigit_digitChar: "d < 10 \<Longrightarrow> isDigit (digitChar d)"
  by (simp add: isDigit_def word_le_nat_alt unat_digitChar)

lemma isDigit_not_space: "isDigit c \<Longrightarrow> \<not> isWhiteSpace c"
  by (auto simp: isDigit_def isWhiteSpace_def word_le_nat_alt)

lemma decimal_digits: "c \<in> set (decimal n) \<Longrightarrow> isDigit c"
proof (induction n arbitrary: c rule: decimal.induct)
  case (1 n)
  show ?case
  proof (cases "n < 10")
    case True
    with "1.prems" show ?thesis
      by (simp add: decimal.simps [of n] isDigit_digitChar)
  next
    case False
    with "1.prems" have "c \<in> set (decimal (n div 10)) \<or> c = digitChar (n mod 10)"
      by (auto simp: decimal.simps [of n])
    with False "1.IH" show ?thesis
      by (auto simp: isDigit_digitChar)
  qed
qed

lemma decimal_length: "0 < k \<Longrightarrow> n < 10 ^ k \<Longrightarrow> length (decimal n) \<le> k"
proof (induction n arbitrary: k rule: decimal.induct)
  case (1 n)
  show ?case
  proof (cases "n < 10")
    case True
    with "1.prems" show ?thesis
      by (simp add: decimal.simps [of n])
  next
    case False
    obtain j where k: "k = Suc j" using "1.prems"(1) by (cases k) auto
    have "j \<noteq> 0" using False "1.prems"(2) k by (cases j) auto
    moreover have "n div 10 < 10 ^ j" using "1.prems"(2) k
      by (simp add: less_mult_imp_div_less mult.commute)
    ultimately have "length (decimal (n div 10)) \<le> j"
      using "1.IH" [OF False, of j] by simp
    with False k show ?thesis
      by (simp add: decimal.simps [of n])
  qed
qed

lemma removeWhiteSpace_digits: "\<forall>c\<in>set s. isDigit c \<Longrightarrow> removeWhiteSpace s = s"
  unfolding removeWhiteSpace_def by (induction s) (auto dest: isDigit_not_space)

lemma normalizeOtpCode_digits:
  "length s = 6 \<Longrightarrow> \<forall>c\<in>set s. isDigit c \<Longrightarrow> normalizeOtpCode s = Inr s"
  by (simp add: normalizeOtpCode_def removeWhiteSpace_digits matchDigits_iff OTP_CODE_LENGTH_def)

lemma isDigit_zero: "isDigit 48"
  by (simp add: isDigit_def)

lemma issued_code_digits:
  "c \<in> set (padStart OTP_CODE_LENGTH 48 (String_of (int rnd))) \<Longrightarrow> isDigit c"
  by (auto simp: padStart_def String_of_def isDigit_zero dest: decimal_digits)

lemma issued_code_length:
  "rnd < 10 ^ 6 \<Longrightarrow> length (padStart OTP_CODE_LENGTH 48 (String_of (int rnd))) = 6"
  using decimal_length [of 6 rnd]
  by (simp add: padStart_def String_of_def OTP_CODE_LENGTH_def)

lemma secureEqualHex_refl: "secureEqualHex x x"
  by (simp add: secureEqualHex_def)

lemma newest_Nil_iff: "newest xs = None \<longleftrightarrow> xs = []"
  by (cases xs) (auto split: option.splits)

lemma newest_mem: "newest xs = Some r \<Longrightarrow> r \<in> set xs"
  by (induction xs arbitrary: r) (auto split: option.splits if_splits)

lemma newest_max: "newest xs = Some r \<Longrightarrow> \<forall>x\<in>set xs. createdAt x \<le> createdAt r"
proof (induction xs arbitrary: r)
  case Nil
  then show ?case by simp
next
  case (Cons a xs)
  show ?case
  proof (cases "newest xs")
    case None
    then have "xs = []" by (simp add: newest_Nil_iff)
    with Cons.prems show ?thesis by simp
  next
    case (Some m)
    with Cons.IH have le: "\<forall>y\<in>set xs. createdAt y \<le> createdAt m" by simp
    from Cons.prems Some le show ?thesis
      by (auto split: if_splits)
  qed
qed

lemma findFirstDesc_Some:
  "findFirstDesc P st = Some r \<Longrightarrow> r \<in> set (rows st) \<and> P r"
  unfolding findFirstDesc_def by (drule newest_mem) simp

lemma activeCode_Some:
  "activeCode now st phone = Some r \<Longrightarrow>
     r \<in> set (rows st) \<and> phoneNumber r = phone \<and> consumedAt r = None \<and> now < expiresAt r"
  unfolding activeCode_def by (drule findFirstDesc_Some) simp

lemma getOtpTtlMinutes_range: "1 \<le> getOtpTtlMinutes h \<and> getOtpTtlMinutes h \<le> 15"
  by (simp add: getOtpTtlMinutes_def Let_def split: option.splits jsnum.splits)

lemma getOtpTtlMinutes_unset: "PHONE_OTP_TTL_MINUTES (env h) = None \<Longrightarrow> getOtpTtlMinutes h = 5"
  by (simp add: getOtpTtlMinutes_def)

lemma getOtpTtlMinutes_finite:
  "PHONE_OTP_TTL_MINUTES (env h) = Some s \<Longrightarrow> Number h s = Finite x \<Longrightarrow>
     getOtpTtlMinutes h = max 1 (min 15 \<lfloor>x\<rfloor>)"
  by (simp add: getOtpTtlMinutes_def)

lemma getOtpTtlMinutes_not_finite:
  "PHONE_OTP_TTL_MINUTES (env h) = Some s \<Longrightarrow> \<forall>x. Number h s \<noteq> Finite x \<Longrightarrow>
     getOtpTtlMinutes h = 5"
  by (cases "Number h s") (simp_all add: getOtpTtlMinutes_def)

lemma issue_Inr:
  assumes "issuePhoneLoginCode h rnd now st phone ip = (Inr (code, expires), st')"
  shows "code = padStart OTP_CODE_LENGTH 48 (String_of (int rnd))"
    and "expires = now + getOtpTtlMinutes h * 60 * 1000"
    and "st' = create now phone (hashOtpCode h phone code) expires ip
                 (deleteMany (purgeable now) st)"
  using assms
  by (auto simp: issuePhoneLoginCode_def Let_def split: if_splits option.splits)

lemma issue_fresh:
  assumes "\<forall>r\<in>set (rows st). phoneNumber r \<noteq> phone"
  shows "issuePhoneLoginCode h rnd now st phone ip =
           (let code = padStart OTP_CODE_LENGTH 48 (String_of (int rnd));
                expires = now + getOtpTtlMinutes h * 60 * 1000
            in (Inr (code, expires),
                create now phone (hashOtpCode h phone code) expires ip
                  (deleteMany (purgeable now) st)))"
proof -
  have none: "filter (\<lambda>r. phoneNumber r = phone) (rows (deleteMany (purgeable now) st)) = []"
    using assms by (auto simp: deleteMany_def filter_empty_conv)
  have cnt: "count (\<lambda>r. phoneNumber r = phone \<and> Q r) (deleteMany (purgeable now) st) = 0" for Q
    using assms by (auto simp: count_def deleteMany_def filter_empty_conv)
  have latest: "findFirstDesc (\<lambda>r. phoneNumber r = phone) (deleteMany (purgeable now) st) = None"
    by (simp add: findFirstDesc_def none)
  show ?thesis
    by (simp add: issuePhoneLoginCode_def Let_def cnt latest MAX_REQUESTS_PER_WINDOW_def)
qed

lemma verify_malformed:
  "normalizeOtpCode code = Inl e \<Longrightarrow> verifyPhoneLoginCode h now st phone code = (Inl e, st)"
  by (simp add: verifyPhoneLoginCode_def)

lemma verify_no_active:
  "normalizeOtpCode code = Inr c \<Longrightarrow> activeCode now st phone = None \<Longrightarrow>
     verifyPhoneLoginCode h now st phone code = (Inr False, st)"
  by (simp add: verifyPhoneLoginCode_def)

lemma verify_exhausted:
  "normalizeOtpCode code = Inr c \<Longrightarrow> activeCode now st phone = Some a \<Longrightarrow>
     MAX_VERIFY_ATTEMPTS \<le> attempts a \<Longrightarrow>
     verifyPhoneLoginCode h now st phone code = (Inr False, st)"
  by (simp add: verifyPhoneLoginCode_def)

lemma verify_mismatch:
  "normalizeOtpCode code = Inr c \<Longrightarrow> activeCode now st phone = Some a \<Longrightarrow>
     attempts a < MAX_VERIFY_ATTEMPTS \<Longrightarrow>
     \<not> secureEqualHex (codeHash a) (hashOtpCode h phone c) \<Longrightarrow>
     verifyPhoneLoginCode h now st phone code =
       (Inr False, update (id' a) (\<lambda>r. r\<lparr>attempts := attempts r + 1\<rparr>) st)"
  by (simp add: verifyPhoneLoginCode_def)

lemma verify_match:
  "normalizeOtpCode code = Inr c \<Longrightarrow> activeCode now st phone = Some a \<Longrightarrow>
     attempts a < MAX_VERIFY_ATTEMPTS \<Longrightarrow>
     secureEqualHex (codeHash a) (hashOtpCode h phone c) \<Longrightarrow>
     verifyPhoneLoginCode h now st phone code =
       (Inr True, update (id' a) (\<lambda>r. r\<lparr>consumedAt := Some now, attempts := attempts r + 1\<rparr>) st)"
  by (simp add: verifyPhoneLoginCode_def)

lemma update_rows_fresh:
  assumes "\<forall>r\<in>set xs. id' r \<noteq> i"
  shows "map (\<lambda>r. if id' r = i then f r else r) xs = xs"
  using assms by (induction xs) auto

lemma storeOk_deleteMany: "storeOk st \<Longrightarrow> storeOk (deleteMany P st)"
  by (auto simp: storeOk_def deleteMany_def list_all_iff distinct_map_filter)

lemma storeOk_create: "storeOk st \<Longrightarrow> storeOk (create now phone hash expires ip st)"
  by (fastforce simp: storeOk_def create_def list_all_iff)

lemma map_id_update: "map id' (map (\<lambda>r. if id' r = i then f r else r) xs) = map id' xs"
  if "\<And>r. id' (f r) = id' r"
  by (induction xs) (auto simp: that)

lemma storeOk_keys:
  "storeOk st \<longleftrightarrow>
     distinct (map id' (rows st)) \<and> (\<forall>k\<in>set (map id' (rows st)). k < nextId st)"
  by (auto simp: storeOk_def list_all_iff)

lemma storeOk_update:
  assumes "\<And>r. id' (f r) = id' r" and "storeOk st"
  shows "storeOk (update i f st)"
proof -
  have "map id' (rows (update i f st)) = map id' (rows st)"
    using map_id_update [of f i "rows st"] assms(1) by (simp add: update_def)
  moreover have "nextId (update i f st) = nextId st"
    by (simp add: update_def)
  ultimately show ?thesis
    using assms(2) unfolding storeOk_keys by simp
qed

lemma issue_store:
  "snd (issuePhoneLoginCode h rnd now st phone ip) = deleteMany (purgeable now) st
   \<or> (\<exists>hash expires. snd (issuePhoneLoginCode h rnd now st phone ip) =
         create now phone hash expires ip (deleteMany (purgeable now) st))"
  by (auto simp: issuePhoneLoginCode_def Let_def split: option.splits)

lemma verify_store:
  "snd (verifyPhoneLoginCode h now st phone code) = st
   \<or> (\<exists>a. activeCode now st phone = Some a \<and> attempts a < MAX_VERIFY_ATTEMPTS
         \<and> (snd (verifyPhoneLoginCode h now st phone code) =
               update (id' a) (\<lambda>r. r\<lparr>attempts := attempts r + 1\<rparr>) st
             \<or> snd (verifyPhoneLoginCode h now st phone code) =
               update (id' a) (\<lambda>r. r\<lparr>consumedAt := Some now, attempts := attempts r + 1\<rparr>) st))"
  by (auto simp: verifyPhoneLoginCode_def Let_def split: sum.splits option.splits)

lemma storeOk_issue: "storeOk st \<Longrightarrow> storeOk (snd (issuePhoneLoginCode h rnd now st phone ip))"
  using issue_store [of h rnd now st phone ip]
  by (auto simp: storeOk_deleteMany storeOk_create)

lemma storeOk_verify: "storeOk st \<Longrightarrow> storeOk (snd (verifyPhoneLoginCode h now st phone code))"
  using verify_store [of h now st phone code]
  by (auto simp: storeOk_update)

lemma storeOk_empty: "storeOk emptyStore"
  by (simp add: storeOk_def emptyStore_def)

text \<open>With distinct keys an update by key changes the one row that carries the key.\<close>

lemma same_key_same_row:
  "distinct (map id' xs) \<Longrightarrow> a \<in> set xs \<Longrightarrow> b \<in> set xs \<Longrightarrow> id' a = id' b \<Longrightarrow> a = b"
  by (auto simp: distinct_map dest: inj_onD)

lemma update_one:
  assumes "distinct (map id' xs)" and "a \<in> set xs"
  shows "map (\<lambda>r. if id' r = id' a then f r else r) xs = map (\<lambda>r. if r = a then f a else r) xs"
proof (rule map_cong [OF refl])
  fix r assume "r \<in> set xs"
  with assms have "id' r = id' a \<longleftrightarrow> r = a"
    by (auto dest: same_key_same_row)
  then show "(if id' r = id' a then f r else r) = (if r = a then f a else r)" by auto
qed

lemma update_row:
  assumes "storeOk st" and "a \<in> set (rows st)"
  shows "rows (update (id' a) f st) = map (\<lambda>r. if r = a then f a else r) (rows st)"
  using assms update_one [of "rows st" a f] by (simp add: update_def storeOk_def)

lemma attemptsInRange_issue:
  "attemptsInRange st \<Longrightarrow> attemptsInRange (snd (issuePhoneLoginCode h rnd now st phone ip))"
  using issue_store [of h rnd now st phone ip]
  by (auto simp: attemptsInRange_def deleteMany_def create_def list_all_iff MAX_VERIFY_ATTEMPTS_def)

lemma attemptsInRange_verify:
  assumes "storeOk st" and "attemptsInRange st"
  shows "attemptsInRange (snd (verifyPhoneLoginCode h now st phone code))"
proof -
  have incr: "attemptsInRange (update (id' a) f st)"
    if a: "activeCode now st phone = Some a" and lt: "attempts a < MAX_VERIFY_ATTEMPTS"
      and f: "attempts (f a) = attempts a + 1" for a f
  proof -
    have mem: "a \<in> set (rows st)" using a by (simp add: activeCode_Some)
    then have "0 \<le> attempts a" using assms(2) by (simp add: attemptsInRange_def list_all_iff)
    with lt f have "0 \<le> attempts (f a) \<and> attempts (f a) \<le> MAX_VERIFY_ATTEMPTS" by simp
    then show ?thesis
      using assms(2) by (auto simp: update_row [OF assms(1) mem] attemptsInRange_def list_all_iff)
  qed
  from verify_store [of h now st phone code] show ?thesis
    using assms(2) by (auto intro!: incr)
qed

lemma inRange_step:
  "storeOk st \<and> attemptsInRange st \<Longrightarrow> storeOk (step h st c) \<and> attemptsInRange (step h st c)"
  by (cases c) (simp_all add: storeOk_issue storeOk_verify attemptsInRange_issue attemptsInRange_verify)

lemma inRange_run:
  "storeOk st \<and> attemptsInRange st \<Longrightarrow>
     storeOk (run h calls st) \<and> attemptsInRange (run h calls st)"
  unfolding run_def
proof (induction calls arbitrary: st)
  case Nil
  then show ?case by simp
next
  case (Cons c calls)
  from Cons.prems have "storeOk (step h st c) \<and> attemptsInRange (step h st c)"
    by (rule inRange_step)
  then show ?case using Cons.IH by simp
qed

text \<open>The tables of the concrete runs are reached from the empty table.\<close>

lemma issuedStore_reached:
  "issuePhoneLoginCode testHost 123 0 emptyStore phone0 None
     = (Inr (utf16 ''000123'', 300000), issuedStore)"
  by code_simp

lemma exhaustedStore_reached:
  "failedAgainst testHost 0 phone0 issuedStore fiveWrong = Some exhaustedStore"
  by code_simp

lemma storeOk_issuedStore: "storeOk issuedStore"
  by (simp add: storeOk_def issuedStore_def issuedRow_def)

lemma verify_False_cases:
  assumes "verifyPhoneLoginCode h now st phone code = (Inr False, st')"
    and "activeCode now st phone = Some a"
  shows "st' = st \<and> MAX_VERIFY_ATTEMPTS \<le> attempts a
       \<or> st' = update (id' a) (\<lambda>r. r\<lparr>attempts := attempts r + 1\<rparr>) st
           \<and> attempts a < MAX_VERIFY_ATTEMPTS"
  using assms
  by (auto simp: verifyPhoneLoginCode_def Let_def split: sum.splits if_splits)

lemma failedAgainst_counts:
  assumes "storeOk st" and "failedAgainst h i phone st tries = Some st'"
  shows "storeOk st' \<and>
         (\<forall>r\<in>set (rows st). id' r = i \<longrightarrow> 0 \<le> attempts r \<longrightarrow>
            (\<forall>r'\<in>set (rows st'). id' r' = i \<longrightarrow>
               min MAX_VERIFY_ATTEMPTS (attempts r + int (length tries)) \<le> attempts r'))"
  using assms
proof (induction tries arbitrary: st)
  case Nil
  then have eq: "st' = st" by simp
  have "r' = r" if "r \<in> set (rows st)" "r' \<in> set (rows st)" "id' r = i" "id' r' = i" for r r'
    using that Nil.prems(1) same_key_same_row [of "rows st" r' r] by (simp add: storeOk_def)
  then show ?case
    using Nil.prems(1) unfolding eq by fastforce
next
  case (Cons t tries)
  obtain now code where t: "t = (now, code)" by (cases t)
  from Cons.prems(2) t obtain a where a: "activeCode now st phone = Some a" and ia: "id' a = i"
    by (auto split: option.splits if_splits)
  from Cons.prems(2) t a ia obtain st1 where
    v: "verifyPhoneLoginCode h now st phone code = (Inr False, st1)"
    and rest: "failedAgainst h i phone st1 tries = Some st'"
    by (cases "verifyPhoneLoginCode h now st phone code") (auto split: sum.splits bool.splits)
  have mem: "a \<in> set (rows st)" using a by (simp add: activeCode_Some)
  have ok1: "storeOk st1"
    using storeOk_verify [OF Cons.prems(1), of h now phone code] v by simp
  note ih = Cons.IH [OF ok1 rest]
  show ?case
  proof (intro conjI ballI impI)
    show "storeOk st'" using ih by simp
  next
    fix r r'
    assume r: "r \<in> set (rows st)" "id' r = i" "0 \<le> attempts r"
      and r': "r' \<in> set (rows st')" "id' r' = i"
    have ra: "r = a"
      using Cons.prems(1) r(1,2) mem ia by (auto simp: storeOk_def dest: same_key_same_row)
    from verify_False_cases [OF v a]
    show "min MAX_VERIFY_ATTEMPTS (attempts r + int (length (t # tries))) \<le> attempts r'"
    proof
      assume same: "st1 = st \<and> MAX_VERIFY_ATTEMPTS \<le> attempts a"
      with ih r r' ra have "min MAX_VERIFY_ATTEMPTS (attempts a + int (length tries)) \<le> attempts r'"
        by auto
      with same show ?thesis by (simp add: ra)
    next
      assume upd: "st1 = update (id' a) (\<lambda>r. r\<lparr>attempts := attempts r + 1\<rparr>) st
                    \<and> attempts a < MAX_VERIFY_ATTEMPTS"
      let ?a1 = "a\<lparr>attempts := attempts a + 1\<rparr>"
      have "?a1 \<in> set (rows st1)"
        using upd mem by (auto simp: update_row [OF Cons.prems(1) mem])
      moreover have "id' ?a1 = i" "0 \<le> attempts ?a1" using ia r(3) ra by simp_all
      ultimately have "min MAX_VERIFY_ATTEMPTS (attempts ?a1 + int (length tries)) \<le> attempts r'"
        using ih r' by blast
      then show ?thesis by (simp add: ra algebra_simps)
    qed
  qed
qed

lemma twoCodesExhausted_reached:
  "run testHost
     [Issue 0 phone0 None 123, Issue 60000 phone0 None 456,
      Verify 61000 phone0 (utf16 ''111111''), Verify 62000 phone0 (utf16 ''222222''),
      Verify 63000 phone0 (utf16 ''333333''), Verify 64000 phone0 (utf16 ''444444''),
      Verify 65000 phone0 (utf16 ''555555'')] emptyStore = twoCodesExhausted"
  by code_simp

lemma sameCodeStore_reached:
  "run testHost [Issue 0 phone0 None 123, Issue 60000 phone0 None 123] emptyStore = sameCodeStore"
  by code_simp

lemma verify_result:
  assumes "normalizeOtpCode code = Inr c" and "activeCode now st phone = Some a"
  shows "fst (verifyPhoneLoginCode h now st phone code) =
           Inr (attempts a < MAX_VERIFY_ATTEMPTS
                \<and> secureEqualHex (codeHash a) (hashOtpCode h phone c))"
  using assms by (simp add: verifyPhoneLoginCode_def Let_def)

lemma verify_rows:
  assumes "storeOk st" and "activeCode now st phone = Some a"
  shows "\<exists>f. rows (snd (verifyPhoneLoginCode h now st phone code)) =
           map (\<lambda>r. if r = a then f r else r) (rows st)"
proof -
  have mem: "a \<in> set (rows st)" using assms(2) by (simp add: activeCode_Some)
  have "(\<lambda>r. if r = a then id r else r) = (\<lambda>r. r)"
    by auto
  then have same: "rows st = map (\<lambda>r. if r = a then id r else r) (rows st)"
    by simp
  from verify_store [of h now st phone code] show ?thesis
  proof (elim disjE exE conjE)
    assume "snd (verifyPhoneLoginCode h now st phone code) = st"
    with same show ?thesis by metis
  next
    fix b
    assume "activeCode now st phone = Some b"
      and "snd (verifyPhoneLoginCode h now st phone code) =
             update (id' b) (\<lambda>r. r\<lparr>attempts := attempts r + 1\<rparr>) st"
    with assms(2) update_row [OF assms(1) mem] show ?thesis
      by (intro exI [of _ "\<lambda>r. r\<lparr>attempts := attempts r + 1\<rparr>"]) (simp cong: map_cong)
  next
    fix b
    assume "activeCode now st phone = Some b"
      and "snd (verifyPhoneLoginCode h now st phone code) =
             update (id' b) (\<lambda>r. r\<lparr>consumedAt := Some now, attempts := attempts r + 1\<rparr>) st"
    with assms(2) update_row [OF assms(1) mem] show ?thesis
      by (intro exI [of _ "\<lambda>r. r\<lparr>consumedAt := Some now, attempts := attempts r + 1\<rparr>"])
         (simp cong: map_cong)
  qed
qed

lemma activeCode_newest:
  assumes "activeCode now st phone = Some a"
    and "r \<in> set (rows st)" "phoneNumber r = phone" "consumedAt r = None" "now < expiresAt r"
  shows "createdAt r \<le> createdAt a"
  using assms newest_max [of "filter (\<lambda>r. phoneNumber r = phone \<and> consumedAt r = None \<and> now < expiresAt r) (rows st)" a]
  by (simp add: activeCode_def findFirstDesc_def)







text \<open>
  Once the latest code is consumed the purge deletes it, and a new code is issued one
  second later, inside the cooldown.
\<close>

lemma purge_defeats_cooldown:
  "fst (issuePhoneLoginCode testHost 7 2000 consumedStore phone0 None)
     = Inr (utf16 ''000007'', 302000)"
  by code_simp

section \<open>The claims\<close>

text \<open>
  Claim C1 (round trip of issue and verify). From a table with no row for the phone
  number, \<open>issuePhoneLoginCode\<close> returns a code of six digits and an expiry and adds one
  unconsumed row; \<open>verifyPhoneLoginCode\<close>, called next with the same phone number and
  that code at any time before the expiry, returns true and leaves the created row
  consumed at that time, every other row as it was.
\<close>

theorem issue_then_verify_roundtrip:
  assumes noRecords: "\<forall>r\<in>set (rows st). phoneNumber r \<noteq> phone"
    and keys: "storeOk st"
    and draw: "rnd < 10 ^ 6"
  shows "\<exists>code expires st1 new.
           issuePhoneLoginCode h rnd now st phone ip = (Inr (code, expires), st1)
         \<and> length code = 6 \<and> (\<forall>c\<in>set code. isDigit c)
         \<and> rows st1 = filter (\<lambda>r. \<not> purgeable now r) (rows st) @ [new]
         \<and> consumedAt new = None \<and> expiresAt new = expires
         \<and> (\<forall>now'. now' < expires \<longrightarrow>
               verifyPhoneLoginCode h now' st1 phone code =
                 (Inr True,
                  st1\<lparr>rows := filter (\<lambda>r. \<not> purgeable now r) (rows st)
                                @ [new\<lparr>consumedAt := Some now', attempts := 1\<rparr>]\<rparr>))"
proof -
  define code where "code = padStart OTP_CODE_LENGTH 48 (String_of (int rnd))"
  define expires where "expires = now + getOtpTtlMinutes h * 60 * 1000"
  define kept where "kept = filter (\<lambda>r. \<not> purgeable now r) (rows st)"
  define new where "new = \<lparr>id' = nextId st, phoneNumber = phone,
     codeHash = hashOtpCode h phone code, expiresAt = expires, attempts = 0,
     consumedAt = None, requestedByIp = ip, createdAt = now\<rparr>"
  define st1 where "st1 = \<lparr>rows = kept @ [new], nextId = Suc (nextId st)\<rparr>"
  have issue: "issuePhoneLoginCode h rnd now st phone ip = (Inr (code, expires), st1)"
    using issue_fresh [OF noRecords]
    by (simp add: Let_def code_def expires_def st1_def new_def kept_def create_def deleteMany_def)
  have len: "length code = 6" unfolding code_def using draw by (rule issued_code_length)
  have dig: "\<forall>c\<in>set code. isDigit c" unfolding code_def by (auto dest: issued_code_digits)
  have norm: "normalizeOtpCode code = Inr code" using len dig by (rule normalizeOtpCode_digits)
  have keptPhone: "\<forall>r\<in>set kept. phoneNumber r \<noteq> phone"
    using noRecords by (simp add: kept_def)
  have keptIds: "\<forall>r\<in>set kept. id' r \<noteq> nextId st"
    using keys by (auto simp: kept_def storeOk_def list_all_iff)
  have verify: "verifyPhoneLoginCode h now' st1 phone code =
      (Inr True, st1\<lparr>rows := kept @ [new\<lparr>consumedAt := Some now', attempts := 1\<rparr>]\<rparr>)"
    if before: "now' < expires" for now'
  proof -
    have "filter (\<lambda>r. phoneNumber r = phone \<and> consumedAt r = None \<and> now' < expiresAt r)
            (kept @ [new]) = [new]"
      using keptPhone before by (auto simp: new_def filter_empty_conv)
    then have act: "activeCode now' st1 phone = Some new"
      by (simp add: activeCode_def findFirstDesc_def st1_def)
    have att: "attempts new < MAX_VERIFY_ATTEMPTS"
      by (simp add: new_def MAX_VERIFY_ATTEMPTS_def)
    have eq: "secureEqualHex (codeHash new) (hashOtpCode h phone code)"
      by (simp add: new_def secureEqualHex_refl)
    have "verifyPhoneLoginCode h now' st1 phone code =
            (Inr True, update (id' new)
               (\<lambda>r. r\<lparr>consumedAt := Some now', attempts := attempts r + 1\<rparr>) st1)"
      using norm act att eq by (rule verify_match)
    moreover have "update (id' new)
               (\<lambda>r. r\<lparr>consumedAt := Some now', attempts := attempts r + 1\<rparr>) st1
             = st1\<lparr>rows := kept @ [new\<lparr>consumedAt := Some now', attempts := 1\<rparr>]\<rparr>"
      using update_rows_fresh [OF keptIds]
      by (simp add: update_def st1_def new_def)
    ultimately show ?thesis by simp
  qed
  have "rows st1 = kept @ [new]" "consumedAt new = None" "expiresAt new = expires"
    by (simp_all add: st1_def new_def)
  with issue len dig verify show ?thesis
    unfolding kept_def by blast
qed

theorem issue_then_verify_roundtrip_witness:
  "issuePhoneLoginCode testHost 123 0 emptyStore phone0 None =
     (Inr (utf16 ''000123'', 300000),
      snd (issuePhoneLoginCode testHost 123 0 emptyStore phone0 None))
   \<and> fst (verifyPhoneLoginCode testHost 1000
           (snd (issuePhoneLoginCode testHost 123 0 emptyStore phone0 None))
           phone0 (utf16 ''000123'')) = Inr True"
proof -
  have a: "\<forall>r\<in>set (rows emptyStore). phoneNumber r \<noteq> phone0"
    by (simp add: emptyStore_def)
  have b: "storeOk emptyStore"
    by (simp add: storeOk_def emptyStore_def)
  have c: "(123::nat) < 10 ^ 6" by simp
  have ev: "fst (issuePhoneLoginCode testHost 123 0 emptyStore phone0 None)
              = Inr (utf16 ''000123'', 300000)"
    by code_simp
  from issue_then_verify_roundtrip [OF a b c, of testHost 0 None]
  obtain code expires st1 where
    i: "issuePhoneLoginCode testHost 123 0 emptyStore phone0 None = (Inr (code, expires), st1)"
    and v: "\<forall>now'. now' < expires \<longrightarrow>
              fst (verifyPhoneLoginCode testHost now' st1 phone0 code) = Inr True"
    by fastforce
  from i ev have "code = utf16 ''000123''" "expires = 300000" by simp_all
  with i v show ?thesis by simp
qed




text \<open>
  Claim C3 (attempt exhaustion). For a well-formed code: when the selected row (the
  newest unconsumed, unexpired row of the phone number) already has 5 or more attempts,
  \<open>verifyPhoneLoginCode\<close> returns false and leaves the table alone, whatever the hash
  function and the submitted code are, so the hashes play no part. In particular, when
  the table is the result of five attempts that each selected this row and returned
  false (on a table with unique keys and no negative counter), a further attempt that
  selects the row returns false for every code, the right one included.
\<close>

theorem exhausted_code_is_rejected:
  assumes wellFormed: "normalizeOtpCode code = Inr c"
    and selected: "activeCode now st phone = Some a"
  shows "(MAX_VERIFY_ATTEMPTS \<le> attempts a \<longrightarrow>
            verifyPhoneLoginCode h now st phone code = (Inr False, st))
       \<and> (\<forall>h0 st0 tries.
            storeOk st0 \<and> (\<forall>r\<in>set (rows st0). 0 \<le> attempts r) \<and> length tries = 5
            \<and> failedAgainst h0 (id' a) phone st0 tries = Some st \<longrightarrow>
            verifyPhoneLoginCode h now st phone code = (Inr False, st))"
proof (intro conjI impI allI)
  assume "MAX_VERIFY_ATTEMPTS \<le> attempts a"
  with wellFormed selected show "verifyPhoneLoginCode h now st phone code = (Inr False, st)"
    by (rule verify_exhausted)
next
  fix h0 st0 tries
  assume hyp: "storeOk st0 \<and> (\<forall>r\<in>set (rows st0). 0 \<le> attempts r) \<and> length tries = 5
            \<and> failedAgainst h0 (id' a) phone st0 tries = Some st"
  then obtain t rest where tries: "tries = t # rest" by (cases tries) auto
  obtain t0 code0 where t: "t = (t0, code0)" by (cases t)
  from hyp tries t obtain a0 where a0: "activeCode t0 st0 phone = Some a0" "id' a0 = id' a"
    by (auto split: option.splits if_splits)
  then have mem0: "a0 \<in> set (rows st0)" by (simp add: activeCode_Some)
  have mem: "a \<in> set (rows st)" using selected by (simp add: activeCode_Some)
  from failedAgainst_counts [of st0 h0 "id' a" phone tries st] hyp mem0 a0(2) mem
  have "min MAX_VERIFY_ATTEMPTS (attempts a0 + int (length tries)) \<le> attempts a"
    by blast
  moreover have "0 \<le> attempts a0" using hyp mem0 by blast
  ultimately have "MAX_VERIFY_ATTEMPTS \<le> attempts a"
    using hyp by (simp add: MAX_VERIFY_ATTEMPTS_def)
  with wellFormed selected show "verifyPhoneLoginCode h now st phone code = (Inr False, st)"
    by (rule verify_exhausted)
qed

theorem exhausted_code_is_rejected_witness:
  "failedAgainst testHost 0 phone0 issuedStore fiveWrong = Some exhaustedStore
   \<and> verifyPhoneLoginCode testHost 6000 exhaustedStore phone0 (utf16 ''000123'')
     = (Inr False, exhaustedStore)"
proof -
  have n: "normalizeOtpCode (utf16 ''000123'') = Inr (utf16 ''000123'')"
    by code_simp
  have a: "activeCode 6000 exhaustedStore phone0 = Some (issuedRow\<lparr>attempts := 5\<rparr>)"
    by code_simp
  have k: "id' (issuedRow\<lparr>attempts := 5\<rparr>) = 0"
    by (simp add: issuedRow_def)
  have m: "MAX_VERIFY_ATTEMPTS \<le> attempts (issuedRow\<lparr>attempts := 5\<rparr>)"
    by (simp add: MAX_VERIFY_ATTEMPTS_def)
  have p: "storeOk issuedStore \<and> (\<forall>r\<in>set (rows issuedStore). 0 \<le> attempts r)
           \<and> length fiveWrong = 5
           \<and> failedAgainst testHost (id' (issuedRow\<lparr>attempts := 5\<rparr>)) phone0 issuedStore fiveWrong
               = Some exhaustedStore"
    unfolding k using exhaustedStore_reached storeOk_issuedStore
    by (simp add: issuedStore_def issuedRow_def fiveWrong_def)
  from exhausted_code_is_rejected [OF n a, of testHost] m p exhaustedStore_reached
  show ?thesis by blast
qed

text \<open>
  Claim C4 (rate limit): with five or more codes created for the phone number in the
  trailing 15 minutes, the next issuance throws the rate-limit error 429. The code counts
  only the rows left after the purge. In the run below five codes are created at 0, 60,
  120, 180 and 240 seconds, all inside the window of the sixth call at 300.001 seconds;
  the purge deletes the first row, expired by one millisecond, and the sixth call returns
  a code instead of the error.
\<close>

theorem rate_limit_forgets_purged_codes:
  "(let st = run testHost fiveIssues emptyStore
    in map createdAt (rows st) = [0, 60000, 120000, 180000, 240000]
       \<and> fst (issuePhoneLoginCode testHost 6 300001 st phone0 None)
           = Inr (utf16 ''000006'', 600001))
   \<and> 300001 - REQUEST_WINDOW_MINUTES * 60 * 1000 \<le> 0"
  by code_simp




text \<open>
  Claim C6 (attempt counting), as the code has it. The claim says the counter goes up on
  every check, whichever branch is taken; the two early returns do not touch it. For a
  well-formed code and a table with unique keys: when no row is selected, or the
  selected row already has 5 or more attempts, the call returns false and the table is
  unchanged; otherwise the selected row's counter goes up by exactly one, on a mismatch
  and on a match alike, a match also marks the row consumed at the call time, and no
  other row changes.
\<close>

theorem verify_counts_checked_attempts:
  assumes keys: "storeOk st" and wellFormed: "normalizeOtpCode code = Inr c"
  shows "case activeCode now st phone of
           None \<Rightarrow> verifyPhoneLoginCode h now st phone code = (Inr False, st)
         | Some a \<Rightarrow>
             if MAX_VERIFY_ATTEMPTS \<le> attempts a
             then verifyPhoneLoginCode h now st phone code = (Inr False, st)
             else if secureEqualHex (codeHash a) (hashOtpCode h phone c)
             then verifyPhoneLoginCode h now st phone code =
                    (Inr True,
                     st\<lparr>rows := map (\<lambda>r. if r = a
                                          then a\<lparr>consumedAt := Some now, attempts := attempts a + 1\<rparr>
                                          else r) (rows st)\<rparr>)
             else verifyPhoneLoginCode h now st phone code =
                    (Inr False,
                     st\<lparr>rows := map (\<lambda>r. if r = a then a\<lparr>attempts := attempts a + 1\<rparr> else r)
                                    (rows st)\<rparr>)"
proof (cases "activeCode now st phone")
  case None
  with wellFormed show ?thesis by (simp add: verify_no_active)
next
  case (Some a)
  then have mem: "a \<in> set (rows st)" by (simp add: activeCode_Some)
  have upd: "update (id' a) f st = st\<lparr>rows := map (\<lambda>r. if r = a then f a else r) (rows st)\<rparr>" for f
    using update_row [OF keys mem, of f] by (simp add: update_def)
  show ?thesis
  proof (cases "MAX_VERIFY_ATTEMPTS \<le> attempts a")
    case True
    with wellFormed Some show ?thesis by (simp add: verify_exhausted)
  next
    case False
    then have lt: "attempts a < MAX_VERIFY_ATTEMPTS" by simp
    show ?thesis
    proof (cases "secureEqualHex (codeHash a) (hashOtpCode h phone c)")
      case True
      from verify_match [OF wellFormed Some lt True] show ?thesis
        using Some False True by (simp add: upd)
    next
      case ne: False
      from verify_mismatch [OF wellFormed Some lt ne] show ?thesis
        using Some False ne by (simp add: upd)
    qed
  qed
qed

theorem verify_counts_checked_attempts_witness:
  "verifyPhoneLoginCode testHost 1000 issuedStore phone0 (utf16 ''111111'')
     = (Inr False, \<lparr>rows = [issuedRow\<lparr>attempts := 1\<rparr>], nextId = 1\<rparr>)"
proof -
  have n: "normalizeOtpCode (utf16 ''111111'') = Inr (utf16 ''111111'')"
    by code_simp
  have a: "activeCode 1000 issuedStore phone0 = Some issuedRow"
    by code_simp
  have ne: "\<not> secureEqualHex (codeHash issuedRow) (hashOtpCode testHost phone0 (utf16 ''111111''))"
    by code_simp
  have lt: "\<not> MAX_VERIFY_ATTEMPTS \<le> attempts issuedRow"
    by (simp add: issuedRow_def MAX_VERIFY_ATTEMPTS_def)
  have "attempts issuedRow = 0" by (simp add: issuedRow_def)
  with verify_counts_checked_attempts [OF storeOk_issuedStore n, where now = 1000 and phone = phone0
      and h = testHost] a ne lt
  show ?thesis by (simp add: issuedStore_def)
qed

text \<open>
  Claim C6 as stated fails on the exhausted table and on the empty table: the code is
  well formed, the call returns false, and the table, with its counters, is unchanged.
\<close>

theorem verify_counts_every_check_counterexample:
  "normalizeOtpCode (utf16 ''000123'') = Inr (utf16 ''000123'')
   \<and> map attempts (rows exhaustedStore) = [5]
   \<and> verifyPhoneLoginCode testHost 6000 exhaustedStore phone0 (utf16 ''000123'')
       = (Inr False, exhaustedStore)
   \<and> verifyPhoneLoginCode testHost 6000 emptyStore phone0 (utf16 ''000123'')
       = (Inr False, emptyStore)"
  by code_simp

text \<open>
  Claim C7 (issuance postcondition), as the code has it. A successful
  \<open>issuePhoneLoginCode\<close> returns the drawn code, padded to six digits, and the expiry; the
  table is the purged table plus exactly one new row, whose \<open>codeHash\<close> is the HMAC-SHA256
  hex digest of phone number, colon and code under the configured secret and whose other
  columns are the phone number, the requester address, the times and the defaults, so the
  code itself is stored nowhere; the expiry is the call time plus the time to live, a
  whole number of minutes from 1 to 15. The time to live is 5 when the variable is unset
  or \<open>Number\<close> gives NaN or an infinity for it; when \<open>Number\<close> gives a finite value it is
  that value rounded down and clamped to 1..15. The claim says 5 for every non-numeric
  value; an empty or blank value is converted to 0 and gives 1.
\<close>

theorem issue_postcondition:
  assumes "issuePhoneLoginCode h rnd now st phone ip = (Inr (code, expires), st')"
  shows "code = padStart 6 48 (String_of (int rnd))
       \<and> expires = now + getOtpTtlMinutes h * 60 * 1000
       \<and> 1 \<le> getOtpTtlMinutes h \<and> getOtpTtlMinutes h \<le> 15
       \<and> (PHONE_OTP_TTL_MINUTES (env h) = None \<longrightarrow> getOtpTtlMinutes h = 5)
       \<and> (\<forall>s. PHONE_OTP_TTL_MINUTES (env h) = Some s \<and> (\<forall>x. Number h s \<noteq> Finite x)
              \<longrightarrow> getOtpTtlMinutes h = 5)
       \<and> (\<forall>s x. PHONE_OTP_TTL_MINUTES (env h) = Some s \<and> Number h s = Finite x
              \<longrightarrow> getOtpTtlMinutes h = max 1 (min 15 \<lfloor>x\<rfloor>))
       \<and> st' = \<lparr>rows = filter (\<lambda>r. \<not> purgeable now r) (rows st) @
                   [\<lparr>id' = nextId st, phoneNumber = phone,
                     codeHash = hmacSha256Hex h (getOtpSecret h) (phone @ utf16 '':'' @ code),
                     expiresAt = expires, attempts = 0, consumedAt = None,
                     requestedByIp = ip, createdAt = now\<rparr>],
                 nextId = Suc (nextId st)\<rparr>"
proof -
  note r = issue_Inr [OF assms]
  have "st' = \<lparr>rows = filter (\<lambda>r. \<not> purgeable now r) (rows st) @
                   [\<lparr>id' = nextId st, phoneNumber = phone,
                     codeHash = hmacSha256Hex h (getOtpSecret h) (phone @ utf16 '':'' @ code),
                     expiresAt = expires, attempts = 0, consumedAt = None,
                     requestedByIp = ip, createdAt = now\<rparr>],
                 nextId = Suc (nextId st)\<rparr>"
    by (simp add: r(3) create_def deleteMany_def hashOtpCode_def)
  moreover have "code = padStart 6 48 (String_of (int rnd))"
    by (simp add: r(1) OTP_CODE_LENGTH_def)
  ultimately show ?thesis
    using r(2) getOtpTtlMinutes_range [of h]
    by (auto simp: getOtpTtlMinutes_unset getOtpTtlMinutes_finite
          dest: getOtpTtlMinutes_not_finite)
qed

theorem issue_postcondition_witness:
  "fst (issuePhoneLoginCode testHost 123 1000 emptyStore phone0 None)
     = Inr (utf16 ''000123'', 301000)
   \<and> getOtpTtlMinutes testHost = 5
   \<and> map codeHash (rows (snd (issuePhoneLoginCode testHost 123 1000 emptyStore phone0 None)))
     = [hmacSha256Hex testHost (getOtpSecret testHost) (phone0 @ utf16 '':'' @ utf16 ''000123'')]"
proof -
  obtain res st' where eq: "issuePhoneLoginCode testHost 123 1000 emptyStore phone0 None = (res, st')"
    by (cases "issuePhoneLoginCode testHost 123 1000 emptyStore phone0 None")
  have "fst (issuePhoneLoginCode testHost 123 1000 emptyStore phone0 None)
          = Inr (utf16 ''000123'', 301000)"
    by code_simp
  with eq have res: "res = Inr (utf16 ''000123'', 301000)" by simp
  have unset: "PHONE_OTP_TTL_MINUTES (env testHost) = None"
    by (simp add: testHost_def)
  have empty: "rows emptyStore = []"
    by (simp add: emptyStore_def)
  from issue_postcondition [OF eq [unfolded res]] unset empty
  have "getOtpTtlMinutes testHost = 5"
    and "map codeHash (rows st')
           = [hmacSha256Hex testHost (getOtpSecret testHost) (phone0 @ utf16 '':'' @ utf16 ''000123'')]"
    by simp_all
  with eq res show ?thesis by simp
qed

text \<open>
  Claim C7 as stated fails when the variable is set to the empty string: the value is not
  a number, yet the time to live is 1 minute and the code issued at 1000 expires at 61000.
\<close>

theorem issue_postcondition_counterexample:
  "PHONE_OTP_TTL_MINUTES (env blankTtlHost) = Some (utf16 [])
   \<and> getOtpTtlMinutes blankTtlHost = 1
   \<and> fst (issuePhoneLoginCode blankTtlHost 123 1000 emptyStore phone0 None)
       = Inr (utf16 ''000123'', 61000)"
proof -
  have ttl: "getOtpTtlMinutes blankTtlHost = 1"
    by (simp add: getOtpTtlMinutes_def blankTtlHost_def removeWhiteSpace_def)
  have "\<forall>r\<in>set (rows emptyStore). phoneNumber r \<noteq> phone0"
    by (simp add: emptyStore_def)
  from issue_fresh [OF this, of blankTtlHost 123 1000 None]
  have "fst (issuePhoneLoginCode blankTtlHost 123 1000 emptyStore phone0 None)
          = Inr (padStart OTP_CODE_LENGTH 48 (String_of (int 123)), 61000)"
    by (simp add: Let_def ttl)
  moreover have "padStart OTP_CODE_LENGTH 48 (String_of (int 123)) = utf16 ''000123''"
    by code_simp
  ultimately show ?thesis
    using ttl by (simp add: blankTtlHost_def utf16_def)
qed

text \<open>
  Claim C8 (malformed code). A submitted code that, once its white space is removed, is
  not exactly six digits makes \<open>verifyPhoneLoginCode\<close> throw the validation error 400,
  whatever the table holds, and the table is returned as it was.
\<close>

theorem verify_rejects_malformed_code:
  assumes "\<not> (length (filter (\<lambda>c. \<not> isWhiteSpace c) code) = 6
              \<and> (\<forall>c\<in>set (filter (\<lambda>c. \<not> isWhiteSpace c) code). isDigit c))"
  shows "verifyPhoneLoginCode h now st phone code =
           (Inl (HttpError 400 (utf16 ''Codul trebuie sa aiba 6 cifre'')), st)"
proof -
  have "\<not> matchDigits OTP_CODE_LENGTH (removeWhiteSpace code)"
    using assms by (simp add: matchDigits_iff removeWhiteSpace_def OTP_CODE_LENGTH_def)
  then have "normalizeOtpCode code = Inl (HttpError 400 (utf16 ''Codul trebuie sa aiba 6 cifre''))"
    by (simp add: normalizeOtpCode_def)
  then show ?thesis by (rule verify_malformed)
qed

theorem verify_rejects_malformed_code_witness:
  "verifyPhoneLoginCode testHost 1000 emptyStore phone0 (utf16 ''12 345'') =
     (Inl (HttpError 400 (utf16 ''Codul trebuie sa aiba 6 cifre'')), emptyStore)"
proof -
  have "length (filter (\<lambda>c. \<not> isWhiteSpace c) (utf16 ''12 345'')) = 5"
    by code_simp
  then show ?thesis
    using verify_rejects_malformed_code [of "utf16 ''12 345''" testHost 1000 emptyStore phone0]
    by simp
qed

text \<open>
  Claim C9 (attempt-counter invariant). After any sequence of \<open>issuePhoneLoginCode\<close> and
  \<open>verifyPhoneLoginCode\<close> calls from the empty table, with any inputs and at any times,
  every row's attempt counter is between 0 and 5.
\<close>

theorem attempts_never_exceed_maximum:
  "\<forall>r\<in>set (rows (run h calls emptyStore)). 0 \<le> attempts r \<and> attempts r \<le> 5"
proof -
  have "attemptsInRange emptyStore"
    by (simp add: attemptsInRange_def emptyStore_def)
  with storeOk_empty have "storeOk emptyStore \<and> attemptsInRange emptyStore" ..
  then have "attemptsInRange (run h calls emptyStore)"
    by (simp add: inRange_run)
  then show ?thesis
    by (simp add: attemptsInRange_def list_all_iff MAX_VERIFY_ATTEMPTS_def)
qed

theorem attempts_never_exceed_maximum_witness:
  "length (rows (run testHost [Issue 0 phone0 None 123, Verify 1000 phone0 (utf16 ''111111'')]
             emptyStore)) = 1
   \<and> 0 \<le> attempts (hd (rows (run testHost
             [Issue 0 phone0 None 123, Verify 1000 phone0 (utf16 ''111111'')] emptyStore)))
   \<and> attempts (hd (rows (run testHost
             [Issue 0 phone0 None 123, Verify 1000 phone0 (utf16 ''111111'')] emptyStore))) \<le> 5"
proof -
  define st where
    "st = run testHost [Issue 0 phone0 None 123, Verify 1000 phone0 (utf16 ''111111'')] emptyStore"
  have len: "length (rows st) = 1"
    unfolding st_def by code_simp
  then have "hd (rows st) \<in> set (rows st)"
    by (cases "rows st") auto
  with attempts_never_exceed_maximum [of testHost
      "[Issue 0 phone0 None 123, Verify 1000 phone0 (utf16 ''111111'')]"]
  have "0 \<le> attempts (hd (rows st)) \<and> attempts (hd (rows st)) \<le> 5"
    unfolding st_def by blast
  with len show ?thesis unfolding st_def by simp
qed

text \<open>
  Claim C10 (only the newest row is checked), as the code has it. With unique keys, a
  well-formed code and \<open>a\<close> the selected row, any other live row \<open>older\<close> of the phone
  number is no newer than \<open>a\<close>; the result is true exactly when \<open>a\<close> has fewer than 5
  attempts and its stored hash equals, byte for byte, the hash of the submitted code, so
  no other row's hash is consulted; \<open>older\<close> is in the table afterwards, unchanged. When
  \<open>a\<close> already has 5 attempts the call returns false and the table is unchanged. When
  \<open>a\<close> has fewer than 5 attempts and the submitted code is the one of \<open>older\<close>: if the
  two stored hashes differ, the call returns false and only \<open>a\<close>'s counter goes up by one;
  if they are equal, the call returns true and \<open>a\<close> is consumed with its counter up by
  one. The claim promises the first of these for every case.
\<close>

theorem verify_checks_newest_only:
  assumes keys: "storeOk st"
    and wellFormed: "normalizeOtpCode code = Inr c"
    and selected: "activeCode now st phone = Some a"
    and older: "older \<in> set (rows st)" "older \<noteq> a" "phoneNumber older = phone"
      "consumedAt older = None" "now < expiresAt older"
  shows "createdAt older \<le> createdAt a
       \<and> fst (verifyPhoneLoginCode h now st phone code) =
           Inr (attempts a < MAX_VERIFY_ATTEMPTS
                \<and> secureEqualHex (codeHash a) (hashOtpCode h phone c))
       \<and> older \<in> set (rows (snd (verifyPhoneLoginCode h now st phone code)))
       \<and> (MAX_VERIFY_ATTEMPTS \<le> attempts a \<longrightarrow>
          verifyPhoneLoginCode h now st phone code = (Inr False, st))
       \<and> (attempts a < MAX_VERIFY_ATTEMPTS
            \<and> codeHash older = hashOtpCode h phone c
            \<and> \<not> secureEqualHex (codeHash a) (codeHash older) \<longrightarrow>
          verifyPhoneLoginCode h now st phone code =
            (Inr False,
             st\<lparr>rows := map (\<lambda>r. if r = a then a\<lparr>attempts := attempts a + 1\<rparr> else r)
                            (rows st)\<rparr>))
       \<and> (attempts a < MAX_VERIFY_ATTEMPTS
            \<and> codeHash older = hashOtpCode h phone c
            \<and> secureEqualHex (codeHash a) (codeHash older) \<longrightarrow>
          verifyPhoneLoginCode h now st phone code =
            (Inr True,
             st\<lparr>rows := map (\<lambda>r. if r = a
                                  then a\<lparr>consumedAt := Some now, attempts := attempts a + 1\<rparr>
                                  else r) (rows st)\<rparr>))"
proof -
  have mem: "a \<in> set (rows st)" using selected by (simp add: activeCode_Some)
  have upd: "update (id' a) f st = st\<lparr>rows := map (\<lambda>r. if r = a then f a else r) (rows st)\<rparr>"
    for f
    using update_row [OF keys mem, of f] by (simp add: update_def)
  have newer: "createdAt older \<le> createdAt a"
    using selected older(1,3,4,5) by (rule activeCode_newest)
  have result: "fst (verifyPhoneLoginCode h now st phone code) =
           Inr (attempts a < MAX_VERIFY_ATTEMPTS
                \<and> secureEqualHex (codeHash a) (hashOtpCode h phone c))"
    using wellFormed selected by (rule verify_result)
  from verify_rows [OF keys selected, of h code] obtain f where
    "rows (snd (verifyPhoneLoginCode h now st phone code)) =
       map (\<lambda>r. if r = a then f r else r) (rows st)" ..
  then have kept: "older \<in> set (rows (snd (verifyPhoneLoginCode h now st phone code)))"
    using older(1,2) by (auto simp: image_iff)
  have full: "verifyPhoneLoginCode h now st phone code = (Inr False, st)"
    if "MAX_VERIFY_ATTEMPTS \<le> attempts a"
    using wellFormed selected that by (rule verify_exhausted)
  have differ: "verifyPhoneLoginCode h now st phone code =
            (Inr False,
             st\<lparr>rows := map (\<lambda>r. if r = a then a\<lparr>attempts := attempts a + 1\<rparr> else r)
                            (rows st)\<rparr>)"
    if lt: "attempts a < MAX_VERIFY_ATTEMPTS" and own: "codeHash older = hashOtpCode h phone c"
      and ne: "\<not> secureEqualHex (codeHash a) (codeHash older)"
  proof -
    from ne own have "\<not> secureEqualHex (codeHash a) (hashOtpCode h phone c)" by metis
    from verify_mismatch [OF wellFormed selected lt this] show ?thesis
      by (simp add: upd)
  qed
  have equal: "verifyPhoneLoginCode h now st phone code =
            (Inr True,
             st\<lparr>rows := map (\<lambda>r. if r = a
                                  then a\<lparr>consumedAt := Some now, attempts := attempts a + 1\<rparr>
                                  else r) (rows st)\<rparr>)"
    if lt: "attempts a < MAX_VERIFY_ATTEMPTS" and own: "codeHash older = hashOtpCode h phone c"
      and eq: "secureEqualHex (codeHash a) (codeHash older)"
  proof -
    from eq own have "secureEqualHex (codeHash a) (hashOtpCode h phone c)" by metis
    from verify_match [OF wellFormed selected lt this] show ?thesis
      by (simp add: upd)
  qed
  from newer result kept full differ equal show ?thesis by blast
qed

text \<open>
  Claim C10 as stated fails twice. With the newest row exhausted, submitting the older
  row's code 000123 returns false and no counter is incremented; with both rows holding
  the hash of the same code, submitting the older row's code returns true.
\<close>

theorem verify_checks_newest_only_counterexample:
  "codeHash issuedRow = hashOtpCode testHost phone0 (utf16 ''000123'')
   \<and> activeCode 66000 twoCodesExhausted phone0 = Some (secondRow\<lparr>attempts := 5\<rparr>)
   \<and> verifyPhoneLoginCode testHost 66000 twoCodesExhausted phone0 (utf16 ''000123'')
       = (Inr False, twoCodesExhausted)
   \<and> fst (verifyPhoneLoginCode testHost 66000 sameCodeStore phone0 (utf16 ''000123''))
       = Inr True"
  by code_simp

theorem verify_checks_newest_only_witness:
  "verifyPhoneLoginCode testHost 61000 twoCodesStore phone0 (utf16 ''000123'')
     = (Inr False, \<lparr>rows = [issuedRow, secondRow\<lparr>attempts := 1\<rparr>], nextId = 2\<rparr>)"
proof -
  have keys: "storeOk twoCodesStore"
    by (simp add: storeOk_def twoCodesStore_def issuedRow_def secondRow_def)
  have n: "normalizeOtpCode (utf16 ''000123'') = Inr (utf16 ''000123'')"
    by code_simp
  have a: "activeCode 61000 twoCodesStore phone0 = Some secondRow"
    by code_simp
  have ne: "issuedRow \<noteq> secondRow"
    by (simp add: issuedRow_def secondRow_def)
  have older: "issuedRow \<in> set (rows twoCodesStore)" "phoneNumber issuedRow = phone0"
    "consumedAt issuedRow = None" "61000 < expiresAt issuedRow"
    by (simp_all add: twoCodesStore_def issuedRow_def)
  have hashes: "attempts secondRow < MAX_VERIFY_ATTEMPTS
      \<and> codeHash issuedRow = hashOtpCode testHost phone0 (utf16 ''000123'')
      \<and> \<not> secureEqualHex (codeHash secondRow) (codeHash issuedRow)"
    by code_simp
  have zero: "attempts secondRow = 0" by (simp add: secondRow_def)
  from verify_checks_newest_only [OF keys n a older(1) ne older(2,3,4), of testHost] hashes
  have "verifyPhoneLoginCode testHost 61000 twoCodesStore phone0 (utf16 ''000123'') =
          (Inr False,
           twoCodesStore\<lparr>rows := map (\<lambda>r. if r = secondRow
                                              then secondRow\<lparr>attempts := attempts secondRow + 1\<rparr>
                                              else r) (rows twoCodesStore)\<rparr>)"
    by blast
  also have "twoCodesStore\<lparr>rows := map (\<lambda>r. if r = secondRow
                                              then secondRow\<lparr>attempts := attempts secondRow + 1\<rparr>
                                              else r) (rows twoCodesStore)\<rparr>
             = \<lparr>rows = [issuedRow, secondRow\<lparr>attempts := 1\<rparr>], nextId = 2\<rparr>"
    using ne by (simp add: twoCodesStore_def zero)
  finally show ?thesis .
qed

end
